theory Spec2Isabelle
  imports Main "HOL-Library.AList"
begin

section \<open>Python dictionaries\<close>

text \<open>
  A Python \<open>dict\<close> keeps its keys in insertion order and holds each key once. It is
  modelled as an association list; the dictionaries Python can build are the lists
  with pairwise distinct keys (\<open>wf_dict\<close>). \<open>d[k] = v\<close> overwrites the value of a
  present key in place and appends an absent key, which is \<open>AList.update\<close>;
  \<open>d[k]\<close> raises \<open>KeyError\<close> on an absent key; \<open>d.update(e)\<close> stores the items
  of \<open>e\<close> into \<open>d\<close> one after the other.
\<close>

type_synonym ('k, 'v) pydict = "('k \<times> 'v) list"

datatype py_error = KeyError

definition wf_dict :: "('k, 'v) pydict \<Rightarrow> bool" where
  "wf_dict d = distinct (map fst d)"

definition dict_setitem :: "'k \<Rightarrow> 'v \<Rightarrow> ('k, 'v) pydict \<Rightarrow> ('k, 'v) pydict" where
  "dict_setitem k v d = AList.update k v d"

definition dict_getitem :: "('k, 'v) pydict \<Rightarrow> 'k \<Rightarrow> py_error + 'v" where
  "dict_getitem d k = (case map_of d k of None \<Rightarrow> Inl KeyError | Some v \<Rightarrow> Inr v)"

definition dict_contains :: "('k, 'v) pydict \<Rightarrow> 'k \<Rightarrow> bool" where
  "dict_contains d k = (map_of d k \<noteq> None)"

definition dict_keys :: "('k, 'v) pydict \<Rightarrow> 'k list" where
  "dict_keys d = map fst d"

definition dict_copy :: "('k, 'v) pydict \<Rightarrow> ('k, 'v) pydict" where
  "dict_copy d = d"

definition dict_update :: "('k, 'v) pydict \<Rightarrow> ('k, 'v) pydict \<Rightarrow> ('k, 'v) pydict" where
  "dict_update d e = fold (\<lambda>kv acc. dict_setitem (fst kv) (snd kv) acc) e d"

section \<open>The property bag of the SDK\<close>

text \<open>
  \<open>TokenClassificationAggregationsMentionsAdditionalProperty\<close> has one attribute,
  the dictionary \<open>additional_properties\<close>. Methods that mutate the object return
  the updated object.
\<close>

record 'v TokenClassificationAggregationsMentionsAdditionalProperty =
  additional_properties :: "(string, 'v) pydict"

definition to_dict ::
  "'v TokenClassificationAggregationsMentionsAdditionalProperty \<Rightarrow> (string, 'v) pydict" where
  "to_dict self =
     (let field_dict = [];
          field_dict = dict_update field_dict (additional_properties self);
          field_dict = dict_update field_dict []
      in field_dict)"

definition from_dict ::
  "(string, 'v) pydict \<Rightarrow> 'v TokenClassificationAggregationsMentionsAdditionalProperty" where
  "from_dict src_dict = (let d = dict_copy src_dict in \<lparr>additional_properties = d\<rparr>)"

definition additional_keys ::
  "'v TokenClassificationAggregationsMentionsAdditionalProperty \<Rightarrow> string list" where
  "additional_keys self = dict_keys (additional_properties self)"

definition getitem ::
  "'v TokenClassificationAggregationsMentionsAdditionalProperty \<Rightarrow> string \<Rightarrow> py_error + 'v" where
  "getitem self key = dict_getitem (additional_properties self) key"

definition setitem ::
  "'v TokenClassificationAggregationsMentionsAdditionalProperty \<Rightarrow> string \<Rightarrow> 'v
     \<Rightarrow> 'v TokenClassificationAggregationsMentionsAdditionalProperty" where
  "setitem self key val =
     self\<lparr>additional_properties := dict_setitem key val (additional_properties self)\<rparr>"

definition contains ::
  "'v TokenClassificationAggregationsMentionsAdditionalProperty \<Rightarrow> string \<Rightarrow> bool" where
  "contains self key = dict_contains (additional_properties self) key"

section \<open>Users and the users service\<close>

text \<open>
  Modelled from the spec: the \<open>User\<close> model class is imported by the services but
  its declaration is not among the sources. The fields are those of the spec's data
  model: a unique \<open>username\<close>, the stored digest \<open>hashed_password\<close>, an optional
  \<open>api_key\<close>, the set \<open>user_groups\<close> and the \<open>current_group\<close> a request acts in.
\<close>

record User =
  username :: string
  hashed_password :: string
  api_key :: "string option"
  user_groups :: "string set"
  current_group :: string

text \<open>
  The data access object \<open>UsersDAO\<close> and the password context of \<open>passlib\<close> are
  collaborators of the service: the service only calls \<open>get_user\<close> of the one and
  \<open>verify\<close> of the other, so each is a record holding that operation. A user
  object is truthy, so \<open>if user\<close> tests that the lookup did not return \<open>None\<close>.
\<close>

record UsersDAO =
  dao_get_user :: "string \<Rightarrow> User option"

record CryptContext =
  verify :: "string \<Rightarrow> string \<Rightarrow> bool"

record UsersService =
  svc_dao :: UsersDAO

definition verify_password :: "CryptContext \<Rightarrow> string \<Rightarrow> string \<Rightarrow> bool" where
  "verify_password PWD_CONTEXT password hashed = verify PWD_CONTEXT password hashed"

definition authenticate_user ::
  "CryptContext \<Rightarrow> UsersService \<Rightarrow> string \<Rightarrow> string \<Rightarrow> User option" where
  "authenticate_user PWD_CONTEXT self uname password =
     (case dao_get_user (svc_dao self) uname of
        None \<Rightarrow> None
      | Some user \<Rightarrow>
          if verify_password PWD_CONTEXT password (hashed_password user)
          then Some user else None)"

text \<open>
  The module variable \<open>_instance\<close> is the state that \<open>create_users_service\<close> reads
  and writes: the function takes its value and returns the service together with
  the new value. \<open>run_calls\<close> performs one call for each DAO of a list, in order,
  and collects what the calls return.
\<close>

definition create_users_service ::
  "UsersDAO \<Rightarrow> UsersService option \<Rightarrow> UsersService \<times> UsersService option" where
  "create_users_service dao inst =
     (case inst of
        None \<Rightarrow> (let created = \<lparr>svc_dao = dao\<rparr> in (created, Some created))
      | Some s \<Rightarrow> (s, Some s))"

fun run_calls ::
  "UsersDAO list \<Rightarrow> UsersService option \<Rightarrow> UsersService list \<times> UsersService option" where
  "run_calls [] inst = ([], inst)"
| "run_calls (dao # daos) inst =
     (let (s, inst') = create_users_service dao inst;
          (ss, inst'') = run_calls daos inst'
      in (s # ss, inst''))"

section \<open>Datasets and the dataset store\<close>

text \<open>
  Modelled from the spec: the \<open>Dataset\<close> and \<open>UpdateDatasetRequest\<close> model
  classes are imported by the routes but their declarations are not among the
  sources. Following the spec's data model, a dataset has its \<open>name\<close>, its
  \<open>owner\<close> group, the lifecycle flag \<open>state\<close> and the settings an update can
  change, a dictionary; an update request is a partial dictionary of settings.
\<close>

datatype dataset_state = Open | Closed

record Dataset =
  name :: string
  owner :: string
  state :: dataset_state
  settings :: "(string, int) pydict"

type_synonym UpdateDatasetRequest = "(string, int) pydict"

datatype error = NotFound | NotAuthorized | StoreUnavailable

text \<open>
  Modelled from the spec: the dataset store (the DAO behind \<open>DatasetsService\<close>) is
  not among the sources. The spec gives it four operations, \<open>list(ownerSet)\<close>,
  \<open>get(name)\<close>, \<open>put(Dataset)\<close> and \<open>remove(name)\<close>. The store is the sequence of
  its records in store order. By the spec's data model a name is unique within its
  owning group and not across owners, so the name and the owner together identify a
  record: \<open>get(name)\<close> yields the records of that name, at most one for each owner,
  and \<open>put\<close> and \<open>remove\<close> act on the one record with the name and the owner they
  are given.
\<close>

type_synonym DatasetStore = "Dataset list"

text \<open>
  Modelled from the spec: the identity rule of the data model, a name is unique within
  its owning group. Two datasets of different owners may share a name.
\<close>

definition unique_within_owner :: "DatasetStore \<Rightarrow> bool" where
  "unique_within_owner s = distinct (map (\<lambda>d. (name d, owner d)) s)"

text \<open>
  Modelled from the spec: \<open>list(ownerSet)\<close> of the store, the records whose owner is in the set,
  in store order.
\<close>

definition store_list :: "DatasetStore \<Rightarrow> string set \<Rightarrow> Dataset list" where
  "store_list s owners = filter (\<lambda>d. owner d \<in> owners) s"

text \<open>
  Modelled from the spec: \<open>get(name)\<close> of the store, the records of that name; the empty
  list is the absent result.
\<close>

definition store_get :: "DatasetStore \<Rightarrow> string \<Rightarrow> Dataset list" where
  "store_get s n = filter (\<lambda>d. name d = n) s"

text \<open>
  Modelled from the spec: \<open>put(Dataset)\<close> of the store, which writes the record in the place
  of the record with its name and owner, or after the others when there is none.
\<close>

fun store_put :: "DatasetStore \<Rightarrow> Dataset \<Rightarrow> DatasetStore" where
  "store_put [] d = [d]"
| "store_put (x # xs) d =
     (if name x = name d \<and> owner x = owner d then d # xs else x # store_put xs d)"

text \<open>
  Modelled from the spec: \<open>remove(name)\<close> of the store, for the record of one owner.
\<close>

definition store_remove :: "DatasetStore \<Rightarrow> string \<Rightarrow> string \<Rightarrow> DatasetStore" where
  "store_remove s n own = filter (\<lambda>d. \<not> (name d = n \<and> owner d = own)) s"

section \<open>The dataset service\<close>

text \<open>
  Modelled from the spec: the class \<open>DatasetsService\<close> (its methods \<open>list\<close>,
  \<open>find_by_name\<close>, \<open>update\<close>, \<open>delete\<close>, \<open>close_dataset\<close> and \<open>open_dataset\<close>)
  is called by the routes but is not among the sources. Each method is written from
  the spec's description of the operation: \<open>list\<close> returns the records whose owner
  is in the given set; \<open>find_by_name\<close> looks the name up scoped to the owner, fails
  with \<open>NotFound\<close> when no record of any owner has the name and with
  \<open>NotAuthorized\<close> when records have the name but none belongs to the owner; the
  other four resolve the dataset the same way and then make one store call. A
  method that changes the store returns its result with the new store; a method
  that fails leaves the store as it was.
\<close>

text \<open>
  Modelled from the spec: \<open>DatasetsService.list\<close>, every dataset whose owner is a member of the
  given set; an empty result is an empty sequence.
\<close>

definition service_list :: "DatasetStore \<Rightarrow> string set \<Rightarrow> Dataset list" where
  "service_list s owners = store_list s owners"

text \<open>
  Modelled from the spec: \<open>DatasetsService.find_by_name\<close>, the two-step check: existence of
  the name under any owner first, then ownership.
\<close>

definition service_find_by_name :: "DatasetStore \<Rightarrow> string \<Rightarrow> string \<Rightarrow> error + Dataset" where
  "service_find_by_name s n own =
     (case store_get s n of
        [] \<Rightarrow> Inl NotFound
      | x # xs \<Rightarrow>
          (case find (\<lambda>d. owner d = own) (x # xs) of
             None \<Rightarrow> Inl NotAuthorized
           | Some found \<Rightarrow> Inr found))"

text \<open>
  Modelled from the spec: the merge of a partial update into a stored record; the settings absent
  from the update keep their values.
\<close>

definition merge :: "Dataset \<Rightarrow> UpdateDatasetRequest \<Rightarrow> Dataset" where
  "merge found data = found\<lparr>settings := dict_update (settings found) data\<rparr>"

text \<open>
  Modelled from the spec: \<open>DatasetsService.update\<close>: resolve as \<open>find_by_name\<close> does, merge,
  persist, return the merged record.
\<close>

definition service_update ::
  "DatasetStore \<Rightarrow> string \<Rightarrow> UpdateDatasetRequest \<Rightarrow> string
     \<Rightarrow> (error + Dataset) \<times> DatasetStore" where
  "service_update s n data own =
     (case service_find_by_name s n own of
        Inl e \<Rightarrow> (Inl e, s)
      | Inr found \<Rightarrow>
          (let updated = merge found data
           in (Inr updated, store_put s updated)))"

text \<open>
  Modelled from the spec: \<open>DatasetsService.delete\<close>: resolve as \<open>find_by_name\<close> does, then
  remove the record found.
\<close>

definition service_delete ::
  "DatasetStore \<Rightarrow> string \<Rightarrow> string \<Rightarrow> (error + unit) \<times> DatasetStore" where
  "service_delete s n own =
     (case service_find_by_name s n own of
        Inl e \<Rightarrow> (Inl e, s)
      | Inr found \<Rightarrow> (Inr (), store_remove s (name found) (owner found)))"

text \<open>
  Modelled from the spec: \<open>DatasetsService.close_dataset\<close>: resolve as \<open>find_by_name\<close> does,
  then store the record with its state set to closed.
\<close>

definition service_close_dataset ::
  "DatasetStore \<Rightarrow> string \<Rightarrow> string \<Rightarrow> (error + unit) \<times> DatasetStore" where
  "service_close_dataset s n own =
     (case service_find_by_name s n own of
        Inl e \<Rightarrow> (Inl e, s)
      | Inr found \<Rightarrow> (Inr (), store_put s (found\<lparr>state := Closed\<rparr>)))"

text \<open>
  Modelled from the spec: \<open>DatasetsService.open_dataset\<close>: resolve as \<open>find_by_name\<close> does,
  then store the record with its state set to open.
\<close>

definition service_open_dataset ::
  "DatasetStore \<Rightarrow> string \<Rightarrow> string \<Rightarrow> (error + unit) \<times> DatasetStore" where
  "service_open_dataset s n own =
     (case service_find_by_name s n own of
        Inl e \<Rightarrow> (Inl e, s)
      | Inr found \<Rightarrow> (Inr (), store_put s (found\<lparr>state := Open\<rparr>)))"

section \<open>The dataset routes\<close>

text \<open>
  The routes of \<open>api.py\<close>. Each takes the service, here the store it works on, and
  the resolved user of the request. \<open>list_datasets\<close> hands the user's
  \<open>user_groups\<close> to the service; every other route hands it the user's
  \<open>current_group\<close>.
\<close>

definition list_datasets :: "DatasetStore \<Rightarrow> User \<Rightarrow> Dataset list" where
  "list_datasets service current_user = service_list service (user_groups current_user)"

definition get_dataset :: "string \<Rightarrow> DatasetStore \<Rightarrow> User \<Rightarrow> error + Dataset" where
  "get_dataset n service current_user =
     service_find_by_name service n (current_group current_user)"

definition update_dataset ::
  "string \<Rightarrow> UpdateDatasetRequest \<Rightarrow> DatasetStore \<Rightarrow> User
     \<Rightarrow> (error + Dataset) \<times> DatasetStore" where
  "update_dataset n update_request service current_user =
     service_update service n update_request (current_group current_user)"




section \<open>Fixture data\<close>

text \<open>
  The scenario of the spec: the dataset \<open>reviews\<close> of group \<open>team-a\<close>, open, with
  the settings \<open>{a: 1, b: 2}\<close>; beside it a dataset of group \<open>team-b\<close>, and a user
  who belongs to both groups and acts in \<open>team-a\<close>. In \<open>shared_store\<close> the name
  \<open>reviews\<close> is used by both groups, each for a dataset of its own.
\<close>

definition reviews :: Dataset where
  "reviews = \<lparr>name = ''reviews'', owner = ''team-a'', state = Open,
              settings = [(''a'', 1), (''b'', 2)]\<rparr>"

definition tickets :: Dataset where
  "tickets = \<lparr>name = ''tickets'', owner = ''team-b'', state = Closed, settings = []\<rparr>"

definition fixture_store :: DatasetStore where
  "fixture_store = [reviews, tickets]"

definition reviews_of_b :: Dataset where
  "reviews_of_b = \<lparr>name = ''reviews'', owner = ''team-b'', state = Open, settings = []\<rparr>"

definition shared_store :: DatasetStore where
  "shared_store = [reviews, reviews_of_b]"

definition carol :: User where
  "carol = \<lparr>username = ''carol'', hashed_password = ''digest-of-secret'', api_key = None,
            user_groups = {''team-a'', ''team-b''}, current_group = ''team-a''\<rparr>"

definition fixture_dao :: UsersDAO where
  "fixture_dao = \<lparr>dao_get_user = (\<lambda>n. if n = ''carol'' then Some carol else None)\<rparr>"

definition fixture_context :: CryptContext where
  "fixture_context = \<lparr>verify = (\<lambda>password hashed. hashed = ''digest-of-'' @ password)\<rparr>"

section \<open>Facts about dictionaries\<close>

lemma dict_setitem_fresh:
  "k \<notin> fst ` set d \<Longrightarrow> dict_setitem k v d = d @ [(k, v)]"
  by (induction d) (auto simp: dict_setitem_def)

lemma dict_update_fresh:
  "distinct (map fst e) \<Longrightarrow> fst ` set d \<inter> fst ` set e = {}
     \<Longrightarrow> dict_update d e = d @ e"
proof (induction e arbitrary: d)
  case Nil
  then show ?case by (simp add: dict_update_def)
next
  case (Cons kv e)
  obtain k v where kv: "kv = (k, v)" by (cases kv)
  from Cons.prems kv have fresh: "k \<notin> fst ` set d" by auto
  have step: "dict_update d (kv # e) = dict_update (dict_setitem k v d) e"
    by (simp add: dict_update_def kv)
  from Cons.prems kv have "distinct (map fst e)"
    and "fst ` set (d @ [(k, v)]) \<inter> fst ` set e = {}"
    by auto
  then have "dict_update (d @ [(k, v)]) e = (d @ [(k, v)]) @ e"
    by (rule Cons.IH)
  with step fresh show ?case
    by (simp add: dict_setitem_fresh kv)
qed

lemma dict_getitem_setitem:
  "dict_getitem (dict_setitem k v d) k' = (if k' = k then Inr v else dict_getitem d k')"
  by (simp add: dict_getitem_def dict_setitem_def update_conv')

lemma dict_contains_setitem:
  "dict_contains (dict_setitem k v d) k' = (k' = k \<or> dict_contains d k')"
  by (simp add: dict_contains_def dict_setitem_def update_conv')

lemma map_of_dict_update:
  "wf_dict e \<Longrightarrow> map_of (dict_update d e) = map_of d ++ map_of e"
proof (induction e arbitrary: d)
  case Nil
  then show ?case by (simp add: dict_update_def)
next
  case (Cons kv e)
  obtain k v where kv: "kv = (k, v)" by (cases kv)
  from Cons.prems kv have wf: "wf_dict e" and fresh: "map_of e k = None"
    by (auto simp: wf_dict_def map_of_eq_None_iff)
  have "dict_update d (kv # e) = dict_update (dict_setitem k v d) e"
    by (simp add: dict_update_def kv)
  also have "map_of \<dots> = map_of (dict_setitem k v d) ++ map_of e"
    using wf by (rule Cons.IH)
  also have "\<dots> = map_of d ++ map_of (kv # e)"
    using fresh by (auto simp: kv dict_setitem_def update_conv' map_add_def fun_eq_iff
        split: option.splits)
  finally show ?case .
qed

lemma dict_getitem_update:
  "wf_dict e \<Longrightarrow> dict_getitem (dict_update d e) k =
     (case map_of e k of None \<Rightarrow> dict_getitem d k | Some v \<Rightarrow> Inr v)"
  by (simp add: dict_getitem_def map_of_dict_update map_add_def split: option.splits)

section \<open>Facts about the store\<close>

lemma unique_within_owner_empty: "unique_within_owner []"
  by (simp add: unique_within_owner_def)

lemma unique_record:
  assumes "unique_within_owner s" and "x \<in> set s" and "y \<in> set s"
    and "name x = name y" and "owner x = owner y"
  shows "x = y"
proof -
  from assms(1) have "inj_on (\<lambda>d. (name d, owner d)) (set s)"
    by (simp add: unique_within_owner_def distinct_map)
  with assms(2-5) show ?thesis
    by (auto dest: inj_onD)
qed

lemma find_filter:
  "find P (filter Q xs) = find (\<lambda>x. Q x \<and> P x) xs"
  by (induction xs) auto

lemma lookup_present:
  "unique_within_owner s \<Longrightarrow> d \<in> set s \<Longrightarrow>
     find (\<lambda>x. name x = name d \<and> owner x = owner d) s = Some d"
proof (induction s)
  case Nil
  then show ?case by simp
next
  case (Cons x xs)
  show ?case
  proof (cases "name x = name d \<and> owner x = owner d")
    case True
    with Cons.prems have "x = d"
      by (intro unique_record [of "x # xs"]) simp_all
    with True show ?thesis by simp
  next
    case False
    with Cons.prems have "unique_within_owner xs" and "d \<in> set xs"
      by (auto simp: unique_within_owner_def)
    then have "find (\<lambda>x. name x = name d \<and> owner x = owner d) xs = Some d"
      by (rule Cons.IH)
    with False show ?thesis by auto
  qed
qed

lemma store_put_keys:
  "(\<lambda>d. (name d, owner d)) ` set (store_put s d)
     = insert (name d, owner d) ((\<lambda>d. (name d, owner d)) ` set s)"
  by (induction s) auto

lemma unique_within_owner_put:
  "unique_within_owner s \<Longrightarrow> unique_within_owner (store_put s d)"
proof (induction s)
  case Nil
  then show ?case by (simp add: unique_within_owner_def)
next
  case (Cons x xs)
  then have u: "unique_within_owner xs"
    and fresh: "(name x, owner x) \<notin> (\<lambda>d. (name d, owner d)) ` set xs"
    by (simp_all add: unique_within_owner_def)
  from u have "unique_within_owner (store_put xs d)" by (rule Cons.IH)
  with fresh Cons.prems show ?case
    using store_put_keys [of xs d] by (auto simp: unique_within_owner_def)
qed

lemma unique_within_owner_remove:
  "unique_within_owner s \<Longrightarrow> unique_within_owner (store_remove s n g)"
  by (simp add: unique_within_owner_def store_remove_def distinct_map_filter)

lemma store_put_member: "d \<in> set (store_put s d)"
  by (induction s) auto


lemma store_put_set:
  "unique_within_owner s \<Longrightarrow>
     set (store_put s d) = insert d {x \<in> set s. \<not> (name x = name d \<and> owner x = owner d)}"
proof (induction s)
  case Nil
  then show ?case by simp
next
  case (Cons x xs)
  then have u: "unique_within_owner xs"
    and "(name x, owner x) \<notin> (\<lambda>d. (name d, owner d)) ` set xs"
    by (simp_all add: unique_within_owner_def)
  then have fresh: "\<forall>y\<in>set xs. \<not> (name y = name x \<and> owner y = owner x)"
    by (auto simp: image_iff)
  from u have IH: "set (store_put xs d)
      = insert d {y \<in> set xs. \<not> (name y = name d \<and> owner y = owner d)}"
    by (rule Cons.IH)
  show ?case
  proof (cases "name x = name d \<and> owner x = owner d")
    case True
    with fresh show ?thesis by auto
  next
    case False
    with IH show ?thesis by auto
  qed
qed

lemma store_put_replaces:
  assumes "unique_within_owner s" and "d \<in> set s"
    and "name d' = name d" and "owner d' = owner d"
  shows "set (store_put s d') = insert d' (set s - {d})"
proof -
  have "{x \<in> set s. \<not> (name x = name d' \<and> owner x = owner d')} = set s - {d}"
    using assms unique_record [OF assms(1) _ assms(2)] by auto
  with store_put_set [OF assms(1), of d'] show ?thesis by simp
qed



section \<open>Facts about the resolution of a dataset\<close>

lemma find_by_name_lookup:
  "service_find_by_name s n g =
     (case find (\<lambda>d. name d = n \<and> owner d = g) s of
        Some d \<Rightarrow> Inr d
      | None \<Rightarrow> if \<exists>d\<in>set s. name d = n then Inl NotAuthorized else Inl NotFound)"
proof (cases "store_get s n")
  case Nil
  then have none: "\<forall>d\<in>set s. name d \<noteq> n"
    by (simp add: store_get_def filter_empty_conv)
  then have "find (\<lambda>d. name d = n \<and> owner d = g) s = None"
    by (auto simp: find_None_iff)
  with Nil none show ?thesis
    by (simp add: service_find_by_name_def)
next
  case (Cons x xs)
  then have "x \<in> set (filter (\<lambda>d. name d = n) s)"
    by (simp add: store_get_def)
  then have some: "\<exists>d\<in>set s. name d = n"
    by auto
  have "find (\<lambda>d. owner d = g) (x # xs) = find (\<lambda>d. name d = n \<and> owner d = g) s"
    using Cons find_filter [of "\<lambda>d. owner d = g" "\<lambda>d. name d = n" s]
    by (simp add: store_get_def)
  with Cons some show ?thesis
    by (simp add: service_find_by_name_def split: option.splits)
qed

lemma find_by_name_present:
  "unique_within_owner s \<Longrightarrow> d \<in> set s \<Longrightarrow>
     service_find_by_name s (name d) (owner d) = Inr d"
  by (simp add: find_by_name_lookup lookup_present)

lemma find_by_name_found:
  assumes "service_find_by_name s n g = Inr d"
  shows "d \<in> set s \<and> name d = n \<and> owner d = g"
proof -
  from assms have "find (\<lambda>d. name d = n \<and> owner d = g) s = Some d"
    by (simp add: find_by_name_lookup split: option.splits if_splits)
  then show ?thesis
    by (auto simp: find_Some_iff)
qed


lemma find_by_name_forbidden:
  "service_find_by_name s n g = Inl NotAuthorized
     \<longleftrightarrow> (\<exists>d\<in>set s. name d = n) \<and> (\<forall>d\<in>set s. name d = n \<longrightarrow> owner d \<noteq> g)"
proof (cases "find (\<lambda>d. name d = n \<and> owner d = g) s")
  case None
  then have "\<forall>d\<in>set s. name d = n \<longrightarrow> owner d \<noteq> g"
    by (auto simp: find_None_iff)
  with None show ?thesis
    by (simp add: find_by_name_lookup)
next
  case (Some d)
  then have "d \<in> set s \<and> name d = n \<and> owner d = g"
    by (auto simp: find_Some_iff)
  with Some show ?thesis
    by (auto simp: find_by_name_lookup)
qed



text \<open>
  The empty store keeps names unique within their owners, and every operation of the
  service that changes the store maintains it.
\<close>

lemma service_keeps_unique:
  assumes "unique_within_owner s"
  shows "unique_within_owner (snd (service_update s n data g))"
    and "unique_within_owner (snd (service_delete s n g))"
    and "unique_within_owner (snd (service_close_dataset s n g))"
    and "unique_within_owner (snd (service_open_dataset s n g))"
  using assms
  by (auto simp: service_update_def service_delete_def service_close_dataset_def
      service_open_dataset_def Let_def unique_within_owner_put unique_within_owner_remove
      split: sum.splits)

section \<open>The users service: authentication and the cached instance\<close>

text \<open>
  Claim C2. \<open>authenticate_user\<close> returns a user exactly when the DAO knows the
  username and the password verifies against the stored digest of that user, and it
  is then the stored user. For an unknown username and for a password that does not
  verify it returns \<open>None\<close>, the same value in both cases.
\<close>

theorem authenticate_user_spec:
  "(authenticate_user ctx svc uname password = Some u
      \<longleftrightarrow> dao_get_user (svc_dao svc) uname = Some u
          \<and> verify ctx password (hashed_password u))
   \<and> (dao_get_user (svc_dao svc) uname = None
          \<longrightarrow> authenticate_user ctx svc uname password = None)
   \<and> (dao_get_user (svc_dao svc) uname = Some u'
          \<and> \<not> verify ctx password (hashed_password u')
          \<longrightarrow> authenticate_user ctx svc uname password = None)"
  by (auto simp: authenticate_user_def verify_password_def split: option.splits)

text \<open>
  On the fixture, the stored user is returned for the right password, and a wrong
  password and an unknown username both give \<open>None\<close>.
\<close>

theorem authenticate_user_spec_witness:
  "authenticate_user fixture_context \<lparr>svc_dao = fixture_dao\<rparr> ''carol'' ''secret'' = Some carol
   \<and> authenticate_user fixture_context \<lparr>svc_dao = fixture_dao\<rparr> ''carol'' ''guess'' = None
   \<and> authenticate_user fixture_context \<lparr>svc_dao = fixture_dao\<rparr> ''dave'' ''secret'' = None"
  using authenticate_user_spec
      [of fixture_context "\<lparr>svc_dao = fixture_dao\<rparr>" "''carol''" "''secret''" carol carol]
    authenticate_user_spec
      [of fixture_context "\<lparr>svc_dao = fixture_dao\<rparr>" "''carol''" "''guess''" carol carol]
    authenticate_user_spec
      [of fixture_context "\<lparr>svc_dao = fixture_dao\<rparr>" "''dave''" "''secret''" carol carol]
  by (simp add: fixture_context_def fixture_dao_def carol_def)

lemma run_calls_bound:
  "run_calls daos (Some s) = (replicate (length daos) s, Some s)"
  by (induction daos) (simp_all add: create_users_service_def)

text \<open>
  Claim C9. \<open>create_users_service\<close> is a cached singleton: called while
  \<open>_instance\<close> is \<open>None\<close> it binds \<open>_instance\<close> to a service built on the DAO of
  that call; called while \<open>_instance\<close> is bound it returns the bound service and
  leaves \<open>_instance\<close> as it is, whatever DAO it is given. So in any run of calls
  that starts from \<open>None\<close>, every call returns the service of the first call and
  \<open>_instance\<close> ends bound to it.
\<close>

theorem create_users_service_singleton:
  "create_users_service dao None = (\<lparr>svc_dao = dao\<rparr>, Some \<lparr>svc_dao = dao\<rparr>)
   \<and> create_users_service dao' (Some s) = (s, Some s)
   \<and> run_calls (dao # daos) None
       = (replicate (Suc (length daos)) \<lparr>svc_dao = dao\<rparr>, Some \<lparr>svc_dao = dao\<rparr>)"
  by (simp add: create_users_service_def run_calls_bound Let_def)

text \<open>
  Two calls with different DAOs, starting from \<open>None\<close>: both return the service
  built on the first DAO.
\<close>

theorem create_users_service_singleton_witness:
  "run_calls [fixture_dao, \<lparr>dao_get_user = (\<lambda>n. None)\<rparr>] None
     = ([\<lparr>svc_dao = fixture_dao\<rparr>, \<lparr>svc_dao = fixture_dao\<rparr>], Some \<lparr>svc_dao = fixture_dao\<rparr>)"
  using create_users_service_singleton
      [of fixture_dao "\<lparr>dao_get_user = (\<lambda>n. None)\<rparr>" "\<lparr>svc_dao = fixture_dao\<rparr>"
          "[\<lparr>dao_get_user = (\<lambda>n. None)\<rparr>]"]
  by simp

section \<open>The property bag\<close>

text \<open>
  Claim C10. For a dictionary \<open>d\<close>, \<open>from_dict d\<close> is an object whose
  \<open>to_dict\<close> is \<open>d\<close> again and whose \<open>additional_keys\<close> are the keys of \<open>d\<close>,
  in the order of \<open>d\<close>. After \<open>obj[k] = v\<close>, \<open>obj[k]\<close> is \<open>v\<close>, \<open>k in obj\<close>
  holds, and every other key reads and tests as before.
\<close>

theorem property_bag_roundtrip:
  assumes "wf_dict d"
  shows "to_dict (from_dict d) = d
     \<and> additional_keys (from_dict d) = dict_keys d
     \<and> getitem (setitem obj k v) k = Inr v
     \<and> contains (setitem obj k v) k
     \<and> (\<forall>k'. k' \<noteq> k \<longrightarrow>
            getitem (setitem obj k v) k' = getitem obj k'
          \<and> contains (setitem obj k v) k' = contains obj k')"
proof -
  from assms have "dict_update [] d = [] @ d"
    by (intro dict_update_fresh) (simp_all add: wf_dict_def)
  moreover have "dict_update d [] = d"
    by (simp add: dict_update_def)
  ultimately have "to_dict (from_dict d) = d"
    by (simp add: to_dict_def from_dict_def dict_copy_def)
  moreover have "additional_keys (from_dict d) = dict_keys d"
    by (simp add: additional_keys_def from_dict_def dict_copy_def)
  ultimately show ?thesis
    by (simp add: getitem_def setitem_def contains_def
        dict_getitem_setitem dict_contains_setitem)
qed

text \<open>
  A bag of two entity counts, read back and extended by a third key.
\<close>

theorem property_bag_roundtrip_witness:
  "wf_dict [(''PER'', 3::int), (''LOC'', 1)]
   \<and> to_dict (from_dict [(''PER'', 3::int), (''LOC'', 1)]) = [(''PER'', 3), (''LOC'', 1)]
   \<and> additional_keys (from_dict [(''PER'', 3::int), (''LOC'', 1)]) = [''PER'', ''LOC'']
   \<and> getitem (setitem (from_dict [(''PER'', 3::int), (''LOC'', 1)]) ''ORG'' 7) ''ORG'' = Inr 7
   \<and> contains (setitem (from_dict [(''PER'', 3::int), (''LOC'', 1)]) ''ORG'' 7) ''ORG''
   \<and> getitem (setitem (from_dict [(''PER'', 3::int), (''LOC'', 1)]) ''ORG'' 7) ''PER''
       = getitem (from_dict [(''PER'', 3::int), (''LOC'', 1)]) ''PER''"
proof -
  have wf: "wf_dict [(''PER'', 3::int), (''LOC'', 1)]"
    by (simp add: wf_dict_def)
  note r = property_bag_roundtrip
    [OF wf, of "from_dict [(''PER'', 3::int), (''LOC'', 1)]" "''ORG''" 7]
  from r have other: "\<forall>k'. k' \<noteq> ''ORG'' \<longrightarrow>
      getitem (setitem (from_dict [(''PER'', 3::int), (''LOC'', 1)]) ''ORG'' 7) k'
        = getitem (from_dict [(''PER'', 3::int), (''LOC'', 1)]) k'"
    by blast
  have "getitem (setitem (from_dict [(''PER'', 3::int), (''LOC'', 1)]) ''ORG'' 7) ''PER''
      = getitem (from_dict [(''PER'', 3::int), (''LOC'', 1)]) ''PER''"
    using other [rule_format, of "''PER''"] by simp
  with r wf show ?thesis
    by (simp add: dict_keys_def)
qed

section \<open>The dataset service: lookup\<close>



text \<open>
  Membership of the owner in \<open>user_groups\<close> does not open a dataset to
  \<open>get_dataset\<close>: the user of the fixture belongs to \<open>team-b\<close>, which owns the
  stored dataset \<open>tickets\<close>, but acts in \<open>team-a\<close>, and the route fails with
  \<open>NotAuthorized\<close>.
\<close>

theorem get_dataset_membership_counterexample:
  "owner tickets \<in> user_groups carol \<and> tickets \<in> set fixture_store
   \<and> unique_within_owner fixture_store
   \<and> get_dataset (name tickets) fixture_store carol = Inl NotAuthorized"
  by (simp add: get_dataset_def service_find_by_name_def store_get_def
      unique_within_owner_def fixture_store_def reviews_def tickets_def carol_def)

text \<open>
  Claim C3, as amended. In a store that keeps a name unique within its owning group,
  for a stored dataset \<open>D\<close> and a user \<open>U\<close>, \<open>get_dataset\<close> on behalf of \<open>U\<close>
  returns \<open>D\<close> exactly when the current group of \<open>U\<close> is the owner of \<open>D\<close>,
  whatever \<open>user_groups\<close> holds; and when no dataset of that name belongs to the
  current group of \<open>U\<close> the call fails with \<open>NotAuthorized\<close>.
\<close>

theorem get_dataset_current_group:
  assumes "unique_within_owner s" and "D \<in> set s"
  shows "(get_dataset (name D) s u = Inr D \<longleftrightarrow> current_group u = owner D)
     \<and> ((\<forall>d\<in>set s. name d = name D \<longrightarrow> owner d \<noteq> current_group u)
          \<longrightarrow> get_dataset (name D) s u = Inl NotAuthorized)"
proof -
  have "get_dataset (name D) s u = Inr D \<longleftrightarrow> current_group u = owner D"
  proof
    assume "get_dataset (name D) s u = Inr D"
    then show "current_group u = owner D"
      using find_by_name_found [of s "name D" "current_group u" D]
      by (simp add: get_dataset_def)
  next
    assume "current_group u = owner D"
    with find_by_name_present [OF assms] show "get_dataset (name D) s u = Inr D"
      by (simp add: get_dataset_def)
  qed
  moreover have "(\<forall>d\<in>set s. name d = name D \<longrightarrow> owner d \<noteq> current_group u)
      \<longrightarrow> get_dataset (name D) s u = Inl NotAuthorized"
    using find_by_name_forbidden [of s "name D" "current_group u"] assms(2)
    by (auto simp: get_dataset_def)
  ultimately show ?thesis by blast
qed

text \<open>
  On the fixture the user, a member of both groups acting in \<open>team-a\<close>, reads the
  dataset of \<open>team-a\<close> and is refused the dataset of \<open>team-b\<close>.
\<close>

theorem get_dataset_current_group_witness:
  "unique_within_owner fixture_store \<and> reviews \<in> set fixture_store
   \<and> tickets \<in> set fixture_store
   \<and> get_dataset ''reviews'' fixture_store carol = Inr reviews
   \<and> get_dataset ''tickets'' fixture_store carol = Inl NotAuthorized"
proof -
  have u: "unique_within_owner fixture_store"
    by (simp add: unique_within_owner_def fixture_store_def reviews_def tickets_def)
  have mem: "reviews \<in> set fixture_store" "tickets \<in> set fixture_store"
    by (simp_all add: fixture_store_def)
  have 1: "get_dataset ''reviews'' fixture_store carol = Inr reviews"
    using get_dataset_current_group [OF u mem(1), of carol]
    by (simp add: reviews_def carol_def)
  have 2: "get_dataset ''tickets'' fixture_store carol = Inl NotAuthorized"
    using get_dataset_current_group [OF u mem(2), of carol]
    by (simp add: fixture_store_def reviews_def tickets_def carol_def)
  from u mem 1 2 show ?thesis by blast
qed

section \<open>The dataset service: listing\<close>

text \<open>
  Claim C4. \<open>list\<close> returns exactly the stored datasets whose owner is in the given
  set of groups; when there is none it returns the empty sequence; and the route
  \<open>list_datasets\<close> calls it with the \<open>user_groups\<close> of the user.
\<close>

theorem list_spec:
  "set (service_list s S) = {d \<in> set s. owner d \<in> S}
   \<and> ((\<forall>d\<in>set s. owner d \<notin> S) \<longrightarrow> service_list s S = [])
   \<and> list_datasets s u = service_list s (user_groups u)"
  by (auto simp: service_list_def store_list_def list_datasets_def filter_empty_conv)

text \<open>
  Listing the mixed-owner fixture store for both groups, for one, and for a group
  that owns nothing.
\<close>

theorem list_spec_witness:
  "set (service_list fixture_store {''team-a'', ''team-b''}) = {reviews, tickets}
   \<and> service_list fixture_store {''team-b''} = [tickets]
   \<and> service_list fixture_store {''team-c''} = []
   \<and> list_datasets fixture_store carol = [reviews, tickets]"
  using list_spec [of fixture_store "{''team-a'', ''team-b''}" carol]
    list_spec [of fixture_store "{''team-c''}" carol]
  by (auto simp: service_list_def store_list_def fixture_store_def reviews_def tickets_def carol_def)

section \<open>The dataset service: lifecycle, update and delete\<close>



text \<open>
  Claim C6. In a store that keeps a name unique within its owning group, for a
  stored dataset \<open>D\<close> owned by the group \<open>G\<close> of the caller and a partial update
  \<open>data\<close>, \<open>update\<close> returns the merged record and puts it in the place of \<open>D\<close>,
  every other record staying, so that a lookup then finds the merged record. In the
  merged record a setting absent from \<open>data\<close> reads as in \<open>D\<close>, a setting present
  in \<open>data\<close> has the value of \<open>data\<close>, and the name, the owner and the state are
  those of \<open>D\<close>. The route calls the service with the current group of the user.
\<close>

theorem update_merges:
  assumes "unique_within_owner s" and "D \<in> set s" and "owner D = G" and "wf_dict data"
  shows "service_update s (name D) data G = (Inr (merge D data), store_put s (merge D data))
     \<and> set (store_put s (merge D data)) = insert (merge D data) (set s - {D})
     \<and> service_find_by_name (store_put s (merge D data)) (name D) G = Inr (merge D data)
     \<and> (\<forall>k. \<not> dict_contains data k \<longrightarrow>
            dict_getitem (settings (merge D data)) k = dict_getitem (settings D) k)
     \<and> (\<forall>k v. dict_getitem data k = Inr v \<longrightarrow>
            dict_getitem (settings (merge D data)) k = Inr v)
     \<and> name (merge D data) = name D \<and> owner (merge D data) = owner D
     \<and> state (merge D data) = state D
     \<and> update_dataset n data s u = service_update s n data (current_group u)"
proof -
  let ?M = "merge D data"
  have found: "service_find_by_name s (name D) G = Inr D"
    using find_by_name_present [OF assms(1,2)] assms(3) by simp
  have call: "service_update s (name D) data G = (Inr ?M, store_put s ?M)"
    by (simp add: service_update_def found Let_def)
  have nm: "name ?M = name D" and ow: "owner ?M = owner D" and st: "state ?M = state D"
    by (simp_all add: merge_def)
  have stored: "set (store_put s ?M) = insert ?M (set s - {D})"
    using assms(1,2) nm ow by (rule store_put_replaces)
  have "unique_within_owner (store_put s ?M)"
    using assms(1) by (rule unique_within_owner_put)
  moreover have "?M \<in> set (store_put s ?M)"
    by (rule store_put_member)
  ultimately have "service_find_by_name (store_put s ?M) (name ?M) (owner ?M) = Inr ?M"
    by (rule find_by_name_present)
  then have again: "service_find_by_name (store_put s ?M) (name D) G = Inr ?M"
    using assms(3) by (simp add: nm ow)
  have absent: "\<forall>k. \<not> dict_contains data k \<longrightarrow>
      dict_getitem (settings ?M) k = dict_getitem (settings D) k"
    using assms(4) by (simp add: merge_def dict_getitem_update dict_contains_def)
  have present: "\<forall>k v. dict_getitem data k = Inr v \<longrightarrow>
      dict_getitem (settings ?M) k = Inr v"
  proof (intro allI impI)
    fix k v
    assume "dict_getitem data k = Inr v"
    then have "map_of data k = Some v"
      by (simp add: dict_getitem_def split: option.splits)
    with assms(4) show "dict_getitem (settings ?M) k = Inr v"
      by (simp add: merge_def dict_getitem_update)
  qed
  have route: "update_dataset n data s u = service_update s n data (current_group u)"
    by (simp add: update_dataset_def)
  from call stored again absent present nm ow st route show ?thesis
    by blast
qed

text \<open>
  The example of the spec: from \<open>{a: 1, b: 2}\<close>, updating with \<open>{b: 3}\<close> gives
  \<open>{a: 1, b: 3}\<close>; the dataset another group keeps under the same name is untouched.
\<close>

theorem update_merges_witness:
  "unique_within_owner shared_store \<and> reviews \<in> set shared_store
   \<and> owner reviews = ''team-a'' \<and> wf_dict [(''b'', 3::int)]
   \<and> fst (service_update shared_store ''reviews'' [(''b'', 3)] ''team-a'')
       = Inr (reviews\<lparr>settings := [(''a'', 1), (''b'', 3)]\<rparr>)
   \<and> snd (service_update shared_store ''reviews'' [(''b'', 3)] ''team-a'')
       = [reviews\<lparr>settings := [(''a'', 1), (''b'', 3)]\<rparr>, reviews_of_b]"
proof -
  have u: "unique_within_owner shared_store"
    by (simp add: unique_within_owner_def shared_store_def reviews_def reviews_of_b_def)
  have mem: "reviews \<in> set shared_store"
    by (simp add: shared_store_def)
  have own: "owner reviews = ''team-a''"
    by (simp add: reviews_def)
  have wfd: "wf_dict [(''b'', 3::int)]"
    by (simp add: wf_dict_def)
  have m: "merge reviews [(''b'', 3)] = reviews\<lparr>settings := [(''a'', 1), (''b'', 3)]\<rparr>"
    by (simp add: merge_def dict_update_def dict_setitem_def reviews_def)
  have nm: "name reviews = ''reviews''"
    by (simp add: reviews_def)
  from update_merges [OF u mem own wfd, of "''reviews''" carol]
  have "service_update shared_store ''reviews'' [(''b'', 3)] ''team-a''
      = (Inr (merge reviews [(''b'', 3)]), store_put shared_store (merge reviews [(''b'', 3)]))"
    by (simp add: nm)
  then show ?thesis using u mem own wfd
    by (simp add: m) (simp add: shared_store_def reviews_def reviews_of_b_def)
qed




end
